theory Spec2Isabelle
  imports Main "HOL-Library.Stream" "HOL-Library.AList"
begin

section \<open>Data model\<close>

text \<open>
  The connection class \<open>WSConn\<close> (conn.ts) and its two concrete subclasses
  \<open>WSServerConn\<close> (server.ts) and \<open>WSClientConn\<close> (client.ts) are embedded as functions
  on an explicit connection state. Every \<open>async\<close> method is run to completion; a rejected
  promise is the value \<open>Some e\<close> (or \<open>Inl e\<close>) next to the state reached when it was thrown.
\<close>

type_synonym UUID = string

text \<open>Payloads are \<open>unknown\<close> in the source; a small JSON-like universe stands for them.\<close>

datatype jsval = JUndefined | JNum int | JStr string | JObj "(string \<times> jsval) list"

text \<open>
  Thrown values. \<open>CloseError\<close> has the two subclasses the source constructs,
  \<open>ConnectionCloseError(reason?)\<close> and \<open>ChannelCloseError(reason)\<close>; \<open>NonError\<close> is a thrown
  value that is neither (JavaScript can throw anything).
\<close>

datatype close_kind = ConnectionClose | ChannelClose

datatype exn = Error string | CloseError close_kind "string option" | NonError jsval

text \<open>
  \<open>WSMessage\<close> (types.ts is not among the sources; the fields are those conn.ts reads:
  \<open>uuid\<close>, \<open>type\<close>, \<open>path\<close>, \<open>data\<close>, \<open>reason\<close>). A data frame is the one whose \<open>type\<close> is
  \<open>undefined\<close>.
\<close>

datatype WSMessage =
    WSOpenMessage UUID string jsval
  | WSDataMessage UUID jsval
  | WSCloseMessage UUID jsval
  | WSErrorMessage UUID string

fun msg_uuid :: "WSMessage \<Rightarrow> UUID" where
  "msg_uuid (WSOpenMessage uuid path data) = uuid"
| "msg_uuid (WSDataMessage uuid data) = uuid"
| "msg_uuid (WSCloseMessage uuid data) = uuid"
| "msg_uuid (WSErrorMessage uuid reason) = uuid"

text \<open>\<open>msg.type === "open"\<close>\<close>

fun is_open :: "WSMessage \<Rightarrow> bool" where
  "is_open (WSOpenMessage uuid path data) = True"
| "is_open (WSDataMessage uuid data) = False"
| "is_open (WSCloseMessage uuid data) = False"
| "is_open (WSErrorMessage uuid reason) = False"

text \<open>
  The value carried by a channel's \<open>close\<close> event: \<open>msg.data\<close> for a close frame,
  a \<open>ChannelCloseError\<close> for an error frame.
\<close>

datatype close_value = Payload jsval | Failure exn

text \<open>
  Modelled from the spec: the event emitter (deps/mutevents.ts) is not among the sources.
  Sections 1 and 9: the listeners of one event are delivered to in registration order,
  within the single delivery loop. The source wraps \<open>emit\<close> in \<open>try\<close>/\<open>catch\<close>: a listener
  that throws makes \<open>emit\<close> reject, with the first failure. A \<open>once\<close> listener is
  retracted when its event fires.
  An application listener is represented by its outcome on the delivered value:
  \<open>None\<close> when it returns, \<open>Some e\<close> when it throws \<open>e\<close>. The one listener the
  connection itself installs on a channel is \<open>() => this.channels.delete(uuid)\<close>.
\<close>

datatype close_listener = Channels_delete | Close_listener "close_value \<Rightarrow> exn option"

record WSChannel =
  message_listeners :: "(jsval \<Rightarrow> exn option) list"
  close_listeners :: "(bool \<times> close_listener) list"

definition new_WSChannel :: WSChannel where
  "new_WSChannel = \<lparr>message_listeners = [], close_listeners = []\<rparr>"

text \<open>
  The transport under the connection: the server side holds a socket with an \<open>isClosed\<close>
  flag, the client side a browser \<open>WebSocket\<close> with a \<open>readyState\<close>.
\<close>

datatype readyState = CONNECTING | OPEN | CLOSING | CLOSED

datatype socket = Server_socket bool | Client_socket readyState

text \<open>What the connection did, in order: each \<open>emit\<close> and each \<open>console.error\<close>.\<close>

datatype event =
    Path_emit string UUID jsval
  | Channel_message UUID jsval
  | Channel_close UUID close_value
  | Conn_close exn
  | Console_error exn

text \<open>
  The connection. \<open>channels\<close> is the \<open>Map<UUID, WSChannel>\<close> in insertion order;
  \<open>paths\<close> the listeners of the path emitter; \<open>close_handlers\<close> the application's
  listeners of the connection's own \<open>close\<close> event; \<open>wire\<close> the frames the transport
  accepted; \<open>uuids\<close> the values \<open>UUIDs.generate()\<close> will return, in order.
  \<open>reclose_throws\<close> says whether the server socket's \<open>close\<close> rejects on a socket that
  is already closed: the socket is outside the sources, and both behaviours are kept.
\<close>

record WSConn =
  socket :: socket
  reclose_throws :: bool
  wire :: "WSMessage list"
  channels :: "(UUID \<times> WSChannel) list"
  paths :: "string \<Rightarrow> (UUID \<Rightarrow> jsval \<Rightarrow> exn option) list"
  close_handlers :: "(exn \<Rightarrow> exn option) list"
  trace :: "event list"
  uuids :: "UUID stream"

section \<open>The event emitter\<close>

fun first_throw :: "('a \<Rightarrow> exn option) list \<Rightarrow> 'a \<Rightarrow> exn option" where
  "first_throw [] x = None"
| "first_throw (f # fs) x = (case f x of Some e \<Rightarrow> Some e | None \<Rightarrow> first_throw fs x)"

definition log_event :: "event \<Rightarrow> WSConn \<Rightarrow> WSConn" where
  "log_event ev c = c\<lparr>trace := trace c @ [ev]\<rparr>"

text \<open>\<open>this.paths.emit(path, { channel, data })\<close>\<close>

definition paths_emit :: "string \<Rightarrow> UUID \<Rightarrow> jsval \<Rightarrow> WSConn \<Rightarrow> exn option \<times> WSConn" where
  "paths_emit path uuid data c =
     (first_throw (map (\<lambda>h. h uuid) (paths c path)) data, log_event (Path_emit path uuid data) c)"

text \<open>\<open>channel.emit("message", data)\<close>\<close>

definition emit_message :: "UUID \<Rightarrow> WSChannel \<Rightarrow> jsval \<Rightarrow> WSConn \<Rightarrow> exn option \<times> WSConn" where
  "emit_message uuid channel data c =
     (first_throw (message_listeners channel) data, log_event (Channel_message uuid data) c)"

text \<open>
  \<open>channel.emit("close", v)\<close>: the \<open>once\<close> listeners are retracted from the channel,
  then the listeners run in registration order up to the first failure.
\<close>

fun run_close_listeners ::
  "UUID \<Rightarrow> close_value \<Rightarrow> close_listener list \<Rightarrow> WSConn \<Rightarrow> exn option \<times> WSConn" where
  "run_close_listeners uuid v [] c = (None, c)"
| "run_close_listeners uuid v (Channels_delete # ls) c =
     run_close_listeners uuid v ls (c\<lparr>channels := AList.delete uuid (channels c)\<rparr>)"
| "run_close_listeners uuid v (Close_listener f # ls) c =
     (case f v of Some e \<Rightarrow> (Some e, c) | None \<Rightarrow> run_close_listeners uuid v ls c)"

definition retract_once :: "UUID \<Rightarrow> WSConn \<Rightarrow> WSConn" where
  "retract_once uuid c =
     c\<lparr>channels := AList.map_entry uuid
          (\<lambda>ch. ch\<lparr>close_listeners := filter (\<lambda>l. \<not> fst l) (close_listeners ch)\<rparr>)
          (channels c)\<rparr>"

definition emit_close :: "UUID \<Rightarrow> WSChannel \<Rightarrow> close_value \<Rightarrow> WSConn \<Rightarrow> exn option \<times> WSConn" where
  "emit_close uuid channel v c =
     run_close_listeners uuid v (map snd (close_listeners channel))
       (retract_once uuid (log_event (Channel_close uuid v) c))"

text \<open>\<open>channel.once(["close"], l)\<close> on the channel registered under \<open>uuid\<close>.\<close>

definition once_close :: "UUID \<Rightarrow> close_listener \<Rightarrow> WSConn \<Rightarrow> WSConn" where
  "once_close uuid l c =
     c\<lparr>channels := AList.map_entry uuid
          (\<lambda>ch. ch\<lparr>close_listeners := close_listeners ch @ [(True, l)]\<rparr>)
          (channels c)\<rparr>"

section \<open>The transport\<close>

text \<open>\<open>get closed()\<close>: \<open>socket.isClosed\<close> on the server, \<open>readyState === CLOSED\<close> on the client.\<close>

definition closed :: "WSConn \<Rightarrow> bool" where
  "closed c = (case socket c of Server_socket isClosed \<Rightarrow> isClosed | Client_socket rs \<Rightarrow> rs = CLOSED)"

text \<open>
  \<open>send(msg)\<close>: \<open>JSON.stringify\<close> and \<open>socket.send\<close>. The sockets are platform code:
  the server socket rejects once it is closed; the browser socket throws while connecting
  and drops the text silently while closing or closed. A frame reaches \<open>wire\<close> only on
  an open socket.
\<close>

definition send :: "WSMessage \<Rightarrow> WSConn \<Rightarrow> exn option \<times> WSConn" where
  "send msg c =
     (case socket c of
        Server_socket isClosed \<Rightarrow>
          if isClosed then (Some (Error ''Socket has already been closed''), c)
          else (None, c\<lparr>wire := wire c @ [msg]\<rparr>)
      | Client_socket rs \<Rightarrow>
          if rs = OPEN then (None, c\<lparr>wire := wire c @ [msg]\<rparr>)
          else if rs = CONNECTING then (Some (Error ''InvalidStateError''), c)
          else (None, c))"

text \<open>\<open>socket.close(1000, reason)\<close>\<close>

definition socket_close :: "WSConn \<Rightarrow> exn option \<times> WSConn" where
  "socket_close c =
     (case socket c of
        Server_socket isClosed \<Rightarrow>
          if isClosed \<and> reclose_throws c then (Some (Error ''Socket has already been closed''), c)
          else (None, c\<lparr>socket := Server_socket True\<rparr>)
      | Client_socket rs \<Rightarrow>
          (None, c\<lparr>socket := Client_socket (if rs = CLOSED then CLOSED else CLOSING)\<rparr>))"

section \<open>Channels\<close>

text \<open>
  Modelled from the spec: channel.ts (the class \<open>WSChannel\<close> with its methods \<open>close\<close>,
  \<open>catch\<close> and \<open>final\<close>) is not among the sources. Section 4.2: a channel is open exactly
  while it is registered in the connection's table; \<open>close\<close> emits a close frame tagged
  with the channel's identifier, then fires the local close event, whose removal hook
  deregisters the channel; double-closing must not re-emit a second close event.
\<close>

definition WSChannel_close :: "UUID \<Rightarrow> jsval \<Rightarrow> WSConn \<Rightarrow> exn option \<times> WSConn" where
  "WSChannel_close uuid data c =
     (case map_of (channels c) uuid of
        None \<Rightarrow> (None, c)
      | Some channel \<Rightarrow>
          (case send (WSCloseMessage uuid data) c of
             (Some e, c1) \<Rightarrow> (Some e, c1)
           | (None, c1) \<Rightarrow> emit_close uuid channel (Payload data) c1))"

text \<open>
  Modelled from the spec: the abnormal close of section 7 (an error frame with a reason,
  then the local close event carrying that reason), with the same guard.
\<close>

definition WSChannel_throw :: "UUID \<Rightarrow> string \<Rightarrow> WSConn \<Rightarrow> exn option \<times> WSConn" where
  "WSChannel_throw uuid reason c =
     (case map_of (channels c) uuid of
        None \<Rightarrow> (None, c)
      | Some channel \<Rightarrow>
          (case send (WSErrorMessage uuid reason) c of
             (Some e, c1) \<Rightarrow> (Some e, c1)
           | (None, c1) \<Rightarrow>
               emit_close uuid channel (Failure (CloseError ChannelClose (Some reason))) c1))"

fun description :: "exn \<Rightarrow> string" where
  "description (Error message) = message"
| "description (CloseError k reason) = (case reason of Some r \<Rightarrow> r | None \<Rightarrow> [])"
| "description (NonError v) = []"

text \<open>
  Modelled from the spec: \<open>channel.catch(e)\<close> of the absent channel.ts. Section 7: a failure
  inside a path handler or a channel listener is translated into a close of the affected
  channel with the failure's description as the reason.
\<close>

definition WSChannel_catch :: "UUID \<Rightarrow> exn \<Rightarrow> WSConn \<Rightarrow> exn option \<times> WSConn" where
  "WSChannel_catch uuid e c = WSChannel_throw uuid (description e) c"

section \<open>The connection\<close>

text \<open>
  Modelled from the spec: nothing in conn.ts, server.ts or client.ts closes a channel when
  the connection closes; that is the work of the absent channel.ts. Sections 3, 7 and 8:
  closing the connection transitions every currently-open channel to closed and fires each
  channel's close event before (or atomically with) the connection's own close event; a
  failure of a channel listener is logged and does not reach the other channels.
\<close>

fun force_close :: "UUID list \<Rightarrow> exn \<Rightarrow> WSConn \<Rightarrow> WSConn" where
  "force_close [] e c = c"
| "force_close (uuid # us) e c =
     (case map_of (channels c) uuid of
        None \<Rightarrow> force_close us e c
      | Some channel \<Rightarrow>
          (case emit_close uuid channel (Failure e) c of
             (None, c1) \<Rightarrow> force_close us e c1
           | (Some x, c1) \<Rightarrow> force_close us e (log_event (Console_error x) c1)))"

text \<open>
  \<open>this.emit("close", e)\<close> on the connection: the channels still registered are closed
  as above, then the event reaches the application's listeners of the connection.
\<close>

definition emit_conn_close :: "exn \<Rightarrow> WSConn \<Rightarrow> exn option \<times> WSConn" where
  "emit_conn_close e c =
     (let c1 = force_close (map fst (channels c)) e c
      in (first_throw (close_handlers c1) e, log_event (Conn_close e) c1))"

text \<open>
  \<open>WSServerConn.close\<close> (server.ts):
  \<^verbatim>\<open>await this.socket.close(1000, reason ?? ""); await this.emit("close", new ConnectionCloseError(reason))\<close>
\<close>

definition WSServerConn_close :: "string option \<Rightarrow> WSConn \<Rightarrow> exn option \<times> WSConn" where
  "WSServerConn_close reason c =
     (case socket_close c of
        (Some e, c1) \<Rightarrow> (Some e, c1)
      | (None, c1) \<Rightarrow> emit_conn_close (CloseError ConnectionClose reason) c1)"

text \<open>
  \<open>WSClientConn.close\<close> (client.ts):
  \<^verbatim>\<open>if (this.closed) return; this.socket.close(1000, reason)\<close>
\<close>

definition WSClientConn_close :: "string option \<Rightarrow> WSConn \<Rightarrow> exn option \<times> WSConn" where
  "WSClientConn_close reason c = (if closed c then (None, c) else socket_close c)"

text \<open>The abstract \<open>close\<close> of \<open>WSConn\<close>, resolved by the class of the connection.\<close>

definition close :: "string option \<Rightarrow> WSConn \<Rightarrow> exn option \<times> WSConn" where
  "close reason c =
     (case socket c of
        Server_socket isClosed \<Rightarrow> WSServerConn_close reason c
      | Client_socket rs \<Rightarrow> WSClientConn_close reason c)"

text \<open>\<open>WSConn.catch\<close>\<close>

definition WSConn_catch :: "exn \<Rightarrow> WSConn \<Rightarrow> exn option \<times> WSConn" where
  "WSConn_catch e c =
     (let c1 = log_event (Console_error e) c
      in case e of
           CloseError k reason \<Rightarrow> if \<not> closed c1 then close reason c1 else (None, c1)
         | Error message \<Rightarrow> if \<not> closed c1 then close (Some message) c1 else (None, c1)
         | NonError v \<Rightarrow> (None, c1))"

text \<open>\<open>WSConn.onwsopen\<close>\<close>

definition onwsopen :: "UUID \<Rightarrow> string \<Rightarrow> jsval \<Rightarrow> WSConn \<Rightarrow> exn option \<times> WSConn" where
  "onwsopen uuid path data c =
     (if map_of (channels c) uuid \<noteq> None then (Some (Error ''UUID already exists''), c)
      else
        let c1 = c\<lparr>channels := AList.update uuid new_WSChannel (channels c)\<rparr>;
            c2 = once_close uuid Channels_delete c1
        in case paths_emit path uuid data c2 of
             (None, c3) \<Rightarrow> (None, c3)
           | (Some e, c3) \<Rightarrow> WSChannel_catch uuid e c3)"

text \<open>\<open>WSConn.onwsmessage\<close>\<close>

definition onwsmessage :: "WSMessage \<Rightarrow> WSConn \<Rightarrow> exn option \<times> WSConn" where
  "onwsmessage msg c =
     (case msg of
        WSOpenMessage uuid path data \<Rightarrow> onwsopen uuid path data c
      | _ \<Rightarrow>
        (case map_of (channels c) (msg_uuid msg) of
           None \<Rightarrow> (Some (Error ''Invalid UUID''), c)
         | Some channel \<Rightarrow>
             (case msg of
                WSDataMessage uuid data \<Rightarrow>
                  (case emit_message uuid channel data c of
                     (None, c1) \<Rightarrow> (None, c1)
                   | (Some e, c1) \<Rightarrow> WSChannel_catch uuid e c1)
              | WSCloseMessage uuid data \<Rightarrow>
                  (case emit_close uuid channel (Payload data) c of
                     (None, c1) \<Rightarrow> (None, c1)
                   | (Some e, c1) \<Rightarrow> WSConn_catch e c1)
              | WSErrorMessage uuid reason \<Rightarrow>
                  (case emit_close uuid channel (Failure (CloseError ChannelClose (Some reason))) c of
                     (None, c1) \<Rightarrow> (None, c1)
                   | (Some e, c1) \<Rightarrow> WSConn_catch e c1)
              | WSOpenMessage uuid path data \<Rightarrow> (None, c))))"

text \<open>
  The \<open>message\<close> listener of the connection is \<open>onwsmessage\<close>; both subclasses emit the
  event and hand a rejection to \<open>console.error\<close>.
\<close>

definition deliver :: "WSMessage \<Rightarrow> WSConn \<Rightarrow> WSConn" where
  "deliver msg c =
     (case onwsmessage msg c of
        (None, c1) \<Rightarrow> c1
      | (Some e, c1) \<Rightarrow> log_event (Console_error e) c1)"

text \<open>
  The events of the server socket, as \<open>_handle\<close> tells them apart; a text event is
  shown after \<open>JSON.parse\<close>.
\<close>

datatype WebSocketEvent =
    Ping_event
  | Pong_event
  | Close_event "string option"
  | Text_event WSMessage

text \<open>
  \<open>WSServerConn._handle\<close>. The \<open>ping\<close> and \<open>pong\<close> events of the connection have no
  listener inside the sources and leave the state as it is.
\<close>

definition handle :: "WebSocketEvent \<Rightarrow> WSConn \<Rightarrow> exn option \<times> WSConn" where
  "handle e c =
     (case e of
        Ping_event \<Rightarrow> (None, c)
      | Pong_event \<Rightarrow> (None, c)
      | Close_event reason \<Rightarrow> emit_conn_close (CloseError ConnectionClose reason) c
      | Text_event msg \<Rightarrow> onwsmessage msg c)"

text \<open>
  \<open>WSServerConn._listen\<close>: every event of the socket goes to \<open>_handle\<close>, whose rejection
  goes to \<open>console.error\<close>; when the socket has no more events the connection emits
  \<open>close\<close> with a \<open>ConnectionCloseError\<close> that has no reason.
\<close>

definition handle_logged :: "WebSocketEvent \<Rightarrow> WSConn \<Rightarrow> WSConn" where
  "handle_logged e c =
     (case handle e c of
        (None, c1) \<Rightarrow> c1
      | (Some x, c1) \<Rightarrow> log_event (Console_error x) c1)"

definition listen :: "WebSocketEvent list \<Rightarrow> WSConn \<Rightarrow> exn option \<times> WSConn" where
  "listen evs c = emit_conn_close (CloseError ConnectionClose None) (fold handle_logged evs c)"

text \<open>\<open>WSClientConn.onclose\<close>, the handler of the browser socket's \<open>close\<close> event.\<close>

definition onclose :: "string \<Rightarrow> WSConn \<Rightarrow> WSConn" where
  "onclose reason c =
     (case emit_conn_close (CloseError ConnectionClose (Some reason)) c of
        (None, c1) \<Rightarrow> c1
      | (Some x, c1) \<Rightarrow> log_event (Console_error x) c1)"

section \<open>Opening channels\<close>

text \<open>
  \<open>WSConn.genUUID\<close>: \<open>while (true)\<close> around one draw and one table lookup. The loop has
  no bound, so the function is partial: \<open>None\<close> is the run that never returns.
\<close>

partial_function (option) genUUID ::
  "(UUID \<times> WSChannel) list \<Rightarrow> UUID stream \<Rightarrow> (UUID \<times> UUID stream) option" where
  "genUUID table draws =
     (if map_of table (shd draws) \<noteq> None then genUUID table (stl draws)
      else Some (shd draws, stl draws))"

declare genUUID.simps [code]

text \<open>
  \<open>WSConn.open\<close>, in the two parts its \<open>await\<close> separates. \<open>open_send\<close> runs up to and
  including \<open>await this.send(message)\<close>; \<open>open_register\<close> is what follows it:
  \<open>this.channels.set(uuid, channel)\<close> and \<open>channel.once(["close"], ...)\<close>.
\<close>

definition open_send :: "string \<Rightarrow> jsval \<Rightarrow> WSConn \<Rightarrow> ((exn + UUID) \<times> WSConn) option" where
  "open_send path data c =
     (case genUUID (channels c) (uuids c) of
        None \<Rightarrow> None
      | Some (uuid, rest) \<Rightarrow>
          (case send (WSOpenMessage uuid path data) (c\<lparr>uuids := rest\<rparr>) of
             (Some e, c1) \<Rightarrow> Some (Inl e, c1)
           | (None, c1) \<Rightarrow> Some (Inr uuid, c1)))"

definition open_register :: "UUID \<Rightarrow> WSConn \<Rightarrow> WSConn" where
  "open_register uuid c =
     once_close uuid Channels_delete
       (c\<lparr>channels := AList.update uuid new_WSChannel (channels c)\<rparr>)"

definition WSConn_open :: "string \<Rightarrow> jsval \<Rightarrow> WSConn \<Rightarrow> ((exn + UUID) \<times> WSConn) option" where
  "WSConn_open path data c =
     (case open_send path data c of
        None \<Rightarrow> None
      | Some (Inl e, c1) \<Rightarrow> Some (Inl e, c1)
      | Some (Inr uuid, c1) \<Rightarrow> Some (Inr uuid, open_register uuid c1))"


section \<open>Waiting\<close>

text \<open>
  The two race primitives (deps/timeout.ts, deps/abortable.ts) are not among the sources.
  A call is represented by what it is given: the awaited alternatives and, for
  \<open>Timeout.race\<close>, the delay.
\<close>

datatype awaited = Paths_wait string | Error_close

datatype race = Timeout_race "awaited list" int | Abort_race "awaited list"

text \<open>\<open>WSConn.waitpath(path, delay = 0)\<close>; an omitted \<open>delay\<close> is \<open>None\<close>.\<close>

definition waitpath :: "string \<Rightarrow> int option \<Rightarrow> race" where
  "waitpath path delay_arg =
     (let delay = (case delay_arg of None \<Rightarrow> 0 | Some d \<Rightarrow> d);
          message = Paths_wait path;
          close = Error_close
      in if delay > 0 then Timeout_race [message, close] 1000
         else Abort_race [message, close])"

text \<open>
  The same call as the documentation of \<open>waitpath\<close> has it (\<open>@param delay Timeout delay\<close>)
  and as section 4.1 of the specification words it: the timeout is \<open>delay\<close>.
\<close>

definition waitpath_documented :: "string \<Rightarrow> int option \<Rightarrow> race" where
  "waitpath_documented path delay_arg =
     (let delay = (case delay_arg of None \<Rightarrow> 0 | Some d \<Rightarrow> d)
      in if delay > 0 then Timeout_race [Paths_wait path, Error_close] delay
         else Abort_race [Paths_wait path, Error_close])"

datatype rejection = Timeout | Thrown exn

datatype 'a settled = Resolved 'a | Rejected rejection

text \<open>
  What happens on the connection while a caller waits, each with its time in time units
  since the wait began, in time order.
\<close>

datatype occurrence = Open_on string UUID jsval | Conn_closed exn

fun fires :: "awaited \<Rightarrow> occurrence \<Rightarrow> (UUID \<times> jsval) settled option" where
  "fires (Paths_wait path) (Open_on p uuid data) =
     (if p = path then Some (Resolved (uuid, data)) else None)"
| "fires (Paths_wait path) (Conn_closed e) = None"
| "fires Error_close (Open_on p uuid data) = None"
| "fires Error_close (Conn_closed e) = Some (Rejected (Thrown e))"

fun first_fire :: "awaited list \<Rightarrow> occurrence \<Rightarrow> (UUID \<times> jsval) settled option" where
  "first_fire [] occ = None"
| "first_fire (w # ws) occ = (case fires w occ of Some r \<Rightarrow> Some r | None \<Rightarrow> first_fire ws occ)"

text \<open>
  Modelled from the spec: the contract of the race primitive, sections 5 and 9. A race
  settles with the first alternative to fire; with a deadline it fails with the timeout
  condition when the deadline elapses first; without one it waits on the alternatives
  only, and \<open>None\<close> is the wait that never ends.
\<close>

fun run_race ::
  "awaited list \<Rightarrow> int option \<Rightarrow> (nat \<times> occurrence) list \<Rightarrow> (UUID \<times> jsval) settled option" where
  "run_race ws deadline [] = (case deadline of None \<Rightarrow> None | Some d \<Rightarrow> Some (Rejected Timeout))"
| "run_race ws deadline ((t, occ) # rest) =
     (if (case deadline of None \<Rightarrow> False | Some d \<Rightarrow> d \<le> int t) then Some (Rejected Timeout)
      else case first_fire ws occ of Some r \<Rightarrow> Some r | None \<Rightarrow> run_race ws deadline rest)"

fun settle :: "race \<Rightarrow> (nat \<times> occurrence) list \<Rightarrow> (UUID \<times> jsval) settled option" where
  "settle (Timeout_race ws delay) timeline = run_race ws (Some delay) timeline"
| "settle (Abort_race ws) timeline = run_race ws None timeline"

fun closing_value :: "UUID \<Rightarrow> event list \<Rightarrow> close_value option" where
  "closing_value uuid [] = None"
| "closing_value uuid (ev # evs) =
     (case ev of
        Channel_close u v \<Rightarrow> if u = uuid then Some v else closing_value uuid evs
      | _ \<Rightarrow> closing_value uuid evs)"

definition new_events :: "WSConn \<Rightarrow> WSConn \<Rightarrow> event list" where
  "new_events c c1 = drop (length (trace c)) (trace c1)"

text \<open>
  Modelled from the spec: \<open>channel.final(delay)\<close> of the absent channel.ts. Section 4.2:
  it awaits the first terminal event of the channel, a close or error event (the source
  documents \<open>request\<close> as "open a channel and wait for a close message"), racing against
  the deadline; on timeout it fails with the timeout condition and leaves the channel
  open; a deadline of 0 means no timeout. The inbound frames arriving during the wait
  are given with their arrival times and are dispatched in order; a frame arriving when
  the deadline has elapsed is not awaited any more.
\<close>

fun final ::
  "UUID \<Rightarrow> int \<Rightarrow> (nat \<times> WSMessage) list \<Rightarrow> WSConn \<Rightarrow> (jsval settled \<times> WSConn) option" where
  "final uuid delay [] c = (if delay > 0 then Some (Rejected Timeout, c) else None)"
| "final uuid delay ((t, msg) # rest) c =
     (if delay > 0 \<and> delay \<le> int t then Some (Rejected Timeout, c)
      else
        let c1 = deliver msg c
        in case closing_value uuid (new_events c c1) of
             Some (Payload data) \<Rightarrow> Some (Resolved data, c1)
           | Some (Failure e) \<Rightarrow> Some (Rejected (Thrown e), c1)
           | None \<Rightarrow> final uuid delay rest c1)"

text \<open>
  \<open>WSConn.request(path, data, delay = 1000)\<close>; an omitted \<open>delay\<close> is \<open>None\<close>. The
  frames that arrive after the channel is opened are the \<open>timeline\<close>.
\<close>

definition request ::
  "string \<Rightarrow> jsval \<Rightarrow> int option \<Rightarrow> (nat \<times> WSMessage) list \<Rightarrow> WSConn \<Rightarrow>
     (jsval settled \<times> WSConn) option" where
  "request path data delay_arg timeline c =
     (let delay = (case delay_arg of None \<Rightarrow> 1000 | Some d \<Rightarrow> d)
      in case WSConn_open path data c of
           None \<Rightarrow> None
         | Some (Inl e, c1) \<Rightarrow> Some (Rejected (Thrown e), c1)
         | Some (Inr uuid, c1) \<Rightarrow> final uuid delay timeline c1)"

section \<open>Predicates of the statements\<close>

text \<open>A close or an error frame: the frames that end a channel.\<close>

fun is_terminal :: "WSMessage \<Rightarrow> bool" where
  "is_terminal (WSOpenMessage uuid path data) = False"
| "is_terminal (WSDataMessage uuid data) = False"
| "is_terminal (WSCloseMessage uuid data) = True"
| "is_terminal (WSErrorMessage uuid reason) = True"

text \<open>
  \<open>within u ev\<close>: the event \<open>ev\<close> is neither a \<open>close\<close> of the connection nor a
  \<open>close\<close> of a channel other than \<open>u\<close>.
  \<open>scoped_to u c c1\<close>: from \<open>c\<close> to \<open>c1\<close> the transport's state and the listeners of
  the connection are unchanged, no table entry but that of \<open>u\<close> has changed, and every
  event emitted meanwhile is within \<open>u\<close>.
\<close>

fun within :: "UUID \<Rightarrow> event \<Rightarrow> bool" where
  "within u (Conn_close e) = False"
| "within u (Channel_close k v) = (k = u)"
| "within u (Path_emit path k data) = True"
| "within u (Channel_message k data) = True"
| "within u (Console_error e) = True"

definition scoped_to :: "UUID \<Rightarrow> WSConn \<Rightarrow> WSConn \<Rightarrow> bool" where
  "scoped_to u c c1 \<longleftrightarrow>
     socket c1 = socket c \<and> reclose_throws c1 = reclose_throws c \<and> paths c1 = paths c
     \<and> close_handlers c1 = close_handlers c \<and> uuids c1 = uuids c
     \<and> (\<forall>k. k \<noteq> u \<longrightarrow> map_of (channels c1) k = map_of (channels c) k)
     \<and> (\<exists>evs. trace c1 = trace c @ evs \<and> (\<forall>ev\<in>set evs. within u ev))"


text \<open>The \<open>close\<close> events of the channel \<open>u\<close>, and those of the connection.\<close>

fun is_close_of :: "UUID \<Rightarrow> event \<Rightarrow> bool" where
  "is_close_of u (Channel_close k v) = (k = u)"
| "is_close_of u (Conn_close e) = False"
| "is_close_of u (Path_emit path k data) = False"
| "is_close_of u (Channel_message k data) = False"
| "is_close_of u (Console_error e) = False"

fun is_conn_close :: "event \<Rightarrow> bool" where
  "is_conn_close (Conn_close e) = True"
| "is_conn_close (Channel_close k v) = False"
| "is_conn_close (Path_emit path k data) = False"
| "is_conn_close (Channel_message k data) = False"
| "is_conn_close (Console_error e) = False"

text \<open>
  \<open>untouched u c c1\<close>: from \<open>c\<close> to \<open>c1\<close> the table entry of \<open>u\<close> is the same and no
  \<open>close\<close> of \<open>u\<close> was emitted.
\<close>

definition untouched :: "UUID \<Rightarrow> WSConn \<Rightarrow> WSConn \<Rightarrow> bool" where
  "untouched u c c1 \<longleftrightarrow>
     map_of (channels c1) u = map_of (channels c) u
     \<and> (\<exists>evs. trace c1 = trace c @ evs \<and> filter (is_close_of u) evs = [])"

text \<open>
  What can end the channel \<open>u\<close>: an inbound close or error frame addressed to it
  (\<open>Inl\<close>), or the application calling \<open>close(data)\<close> on it (\<open>Inr\<close>); a rejection of
  that call stays with its caller.
\<close>

definition closing_action :: "UUID \<Rightarrow> WSMessage + jsval \<Rightarrow> bool" where
  "closing_action u a = (case a of Inl msg \<Rightarrow> is_terminal msg \<and> msg_uuid msg = u | Inr data \<Rightarrow> True)"

definition closing_step :: "UUID \<Rightarrow> WSMessage + jsval \<Rightarrow> WSConn \<Rightarrow> WSConn" where
  "closing_step u a c = (case a of Inl msg \<Rightarrow> deliver msg c | Inr data \<Rightarrow> snd (WSChannel_close u data c))"

text \<open>
  \<open>hooked c\<close>: every registered channel has the removal hook as its first close
  listener, as \<open>open\<close> and \<open>onwsopen\<close> install it.
\<close>

definition hooked :: "WSConn \<Rightarrow> bool" where
  "hooked c \<longleftrightarrow>
     (\<forall>u ch. map_of (channels c) u = Some ch \<longrightarrow> (\<exists>ls. close_listeners ch = (True, Channels_delete) # ls))"

text \<open>
  \<open>closes_all e c c1\<close>: from \<open>c\<close> to \<open>c1\<close> the table has become empty; every channel
  registered in \<open>c\<close> had its \<open>close\<close> event emitted exactly once, carrying \<open>e\<close>, before
  the connection's own \<open>close\<close> event, which was emitted once.
\<close>

definition closes_all :: "exn \<Rightarrow> WSConn \<Rightarrow> WSConn \<Rightarrow> bool" where
  "closes_all e c c1 \<longleftrightarrow>
     channels c1 = []
     \<and> (\<exists>evs rest. trace c1 = trace c @ evs @ Conn_close e # rest
           \<and> (\<forall>u. map_of (channels c) u \<noteq> None \<longrightarrow>
                  Channel_close u (Failure e) \<in> set evs \<and> length (filter (is_close_of u) evs) = 1)
           \<and> \<not> list_ex is_conn_close (evs @ rest))"




section \<open>Example connections\<close>

definition fresh_conn :: "socket \<Rightarrow> WSConn" where
  "fresh_conn s =
     \<lparr>socket = s, reclose_throws = False, wire = [], channels = [], paths = (\<lambda>p. []),
      close_handlers = [], trace = [], uuids = ''a'' ## ''a'' ## ''b'' ## sconst ''c''\<rparr>"

definition server_with :: "(UUID \<times> WSChannel) list \<Rightarrow> WSConn" where
  "server_with table = (fresh_conn (Server_socket False))\<lparr>channels := table\<rparr>"

definition hooked_channel :: "(close_value \<Rightarrow> exn option) list \<Rightarrow> WSChannel" where
  "hooked_channel ls =
     \<lparr>message_listeners = [],
      close_listeners = (True, Channels_delete) # map (\<lambda>f. (False, Close_listener f)) ls\<rparr>"


definition boom_channel :: WSChannel where
  "boom_channel =
     \<lparr>message_listeners = [\<lambda>d. Some (Error ''boom'')],
      close_listeners = [(True, Channels_delete), (False, Close_listener (\<lambda>v. Some (Error ''boom'')))]\<rparr>"

definition boom_conn :: WSConn where
  "boom_conn =
     (server_with [(''a'', boom_channel), (''b'', hooked_channel [])])
       \<lparr>paths := (\<lambda>p. [\<lambda>u d. Some (Error ''boom'')])\<rparr>"

section \<open>Inbound dispatch\<close>

text \<open>
  C10. An inbound open frame whose identifier is already in the channel table makes
  the dispatcher throw \<open>Error("UUID already exists")\<close> and leaves the whole connection
  state as it was: the table keeps its entries (no channel is created, the registered one
  is not replaced) and nothing is emitted on the path emitter, so no path handler runs.
\<close>

theorem duplicate_open_rejected:
  assumes "map_of (channels c) uuid \<noteq> None"
  shows "onwsmessage (WSOpenMessage uuid path data) c = (Some (Error ''UUID already exists''), c)"
  using assms by (simp add: onwsmessage_def onwsopen_def)

theorem duplicate_open_rejected_witness:
  "map_of (channels (server_with [(''a'', hooked_channel [])])) ''a'' \<noteq> None
   \<and> onwsmessage (WSOpenMessage ''a'' ''echo'' (JNum 1)) (server_with [(''a'', hooked_channel [])])
     = (Some (Error ''UUID already exists''), server_with [(''a'', hooked_channel [])])"
  using duplicate_open_rejected [of "server_with [(''a'', hooked_channel [])]" "''a''" "''echo''" "JNum 1"]
  by (simp add: server_with_def)

text \<open>
  C6. An inbound data, close or error frame whose identifier is not in the channel
  table makes the dispatcher throw \<open>Error("Invalid UUID")\<close> with the connection state
  unchanged: nothing is emitted on any channel, so no channel listener runs; the
  subclasses hand the rejection to \<open>console.error\<close>, so the frame is not dropped silently.
\<close>

theorem unknown_uuid_reported:
  assumes "\<not> is_open msg" and "map_of (channels c) (msg_uuid msg) = None"
  shows "onwsmessage msg c = (Some (Error ''Invalid UUID''), c)
         \<and> deliver msg c = log_event (Console_error (Error ''Invalid UUID'')) c"
  using assms by (cases msg) (simp_all add: onwsmessage_def deliver_def)

theorem unknown_uuid_reported_witness:
  "\<not> is_open (WSCloseMessage ''b'' JUndefined)
   \<and> map_of (channels (server_with [(''a'', hooked_channel [])])) (msg_uuid (WSCloseMessage ''b'' JUndefined)) = None
   \<and> onwsmessage (WSCloseMessage ''b'' JUndefined) (server_with [(''a'', hooked_channel [])])
       = (Some (Error ''Invalid UUID''), server_with [(''a'', hooked_channel [])])
   \<and> trace (deliver (WSCloseMessage ''b'' JUndefined) (server_with [(''a'', hooked_channel [])]))
       = [Console_error (Error ''Invalid UUID'')]"
  using unknown_uuid_reported [of "WSCloseMessage ''b'' JUndefined" "server_with [(''a'', hooked_channel [])]"]
  by (simp add: server_with_def fresh_conn_def log_event_def)

section \<open>Waiting for a path\<close>

text \<open>
  C4. \<open>waitpath(path, delay)\<close> with \<open>delay > 0\<close> should race the next open on \<open>path\<close>
  and the connection's closure against a timeout of \<open>delay\<close>. The source passes the
  constant 1000 to \<open>Timeout.race\<close> instead: with \<open>delay = 50\<close> an open that arrives at time
  100 still settles the wait, where the documented behaviour is the timeout.
\<close>

theorem waitpath_ignores_delay:
  "waitpath ''echo'' (Some 50) = Timeout_race [Paths_wait ''echo'', Error_close] 1000
   \<and> waitpath_documented ''echo'' (Some 50) = Timeout_race [Paths_wait ''echo'', Error_close] 50
   \<and> settle (waitpath ''echo'' (Some 50)) [(100, Open_on ''echo'' ''a'' (JNum 1))]
       = Some (Resolved (''a'', JNum 1))
   \<and> settle (waitpath_documented ''echo'' (Some 50)) [(100, Open_on ''echo'' ''a'' (JNum 1))]
       = Some (Rejected Timeout)"
  by (simp add: waitpath_def waitpath_documented_def)

lemma waitpath_without_delay:
  "delay_arg = None \<or> delay_arg = Some 0 \<Longrightarrow>
   waitpath path delay_arg = Abort_race [Paths_wait path, Error_close]"
  by (auto simp add: waitpath_def)

section \<open>Closing the connection twice\<close>

text \<open>
  C3. \<open>close\<close> on a connection that is already closed should do nothing. The client's
  \<open>close\<close> has the guard \<open>if (this.closed) return\<close>; the server's has none. On a closed
  server connection it calls \<open>socket.close\<close> again and, when that returns, emits the
  connection's \<open>close\<close> event once more; when \<open>socket.close\<close> rejects, so does the call.
  And when the peer closes, \<open>_handle\<close> emits \<open>close\<close> for the close event and \<open>_listen\<close>
  emits it again when the socket's events end.
\<close>

theorem server_close_not_idempotent:
  "trace (snd (WSServerConn_close None (fresh_conn (Server_socket True))))
     = [Conn_close (CloseError ConnectionClose None)]
   \<and> fst (WSServerConn_close None ((fresh_conn (Server_socket True))\<lparr>reclose_throws := True\<rparr>))
     = Some (Error ''Socket has already been closed'')
   \<and> trace (snd (listen [Close_event None] (fresh_conn (Server_socket True))))
     = [Conn_close (CloseError ConnectionClose None), Conn_close (CloseError ConnectionClose None)]
   \<and> WSClientConn_close None (fresh_conn (Client_socket CLOSED))
     = (None, fresh_conn (Client_socket CLOSED))"
  by (simp add: WSServerConn_close_def WSClientConn_close_def closed_def socket_close_def
      listen_def handle_logged_def handle_def fresh_conn_def emit_conn_close_def log_event_def)

section \<open>Allocating identifiers and opening channels\<close>




lemma send_channels: "send m c = (r, c1) \<Longrightarrow> channels c1 = channels c"
  by (auto simp add: send_def split: socket.splits if_splits)


lemma WSConn_open_Inr:
  assumes "WSConn_open path data c = Some (Inr uuid, c')"
  shows "\<exists>rest c1. genUUID (channels c) (uuids c) = Some (uuid, rest)
           \<and> send (WSOpenMessage uuid path data) (c\<lparr>uuids := rest\<rparr>) = (None, c1)
           \<and> open_send path data c = Some (Inr uuid, c1)
           \<and> c' = open_register uuid c1"
  using assms
  by (auto simp add: WSConn_open_def open_send_def split: option.splits prod.splits sum.splits)

lemma WSConn_open_Inl:
  assumes "WSConn_open path data c = Some (Inl e, c')"
  shows "open_send path data c = Some (Inl e, c') \<and> channels c' = channels c"
  using assms
  by (auto simp add: WSConn_open_def open_send_def split: option.splits prod.splits sum.splits dest: send_channels)












section \<open>Failures of handlers and listeners\<close>

lemma delete_map_entry: "AList.delete k (AList.map_entry k f al) = AList.delete k al"
  by (induction al) (auto simp add: AList.delete_eq)

lemma run_close_listeners_state:
  "run_close_listeners u v ls c = (r, c') \<Longrightarrow>
   c' = c \<or> c' = c\<lparr>channels := AList.delete u (channels c)\<rparr>"
proof (induction ls arbitrary: c)
  case Nil
  then show ?case by simp
next
  case (Cons l ls)
  show ?case
  proof (cases l)
    case Channels_delete
    with Cons.prems have
      "run_close_listeners u v ls (c\<lparr>channels := AList.delete u (channels c)\<rparr>) = (r, c')"
      by simp
    from Cons.IH [OF this] show ?thesis by (auto simp add: delete_idem)
  next
    case (Close_listener f)
    with Cons.prems Cons.IH show ?thesis by (cases "f v") auto
  qed
qed

lemma run_close_listeners_hook:
  assumes "run_close_listeners u v (Channels_delete # ls) c = (r, c')"
  shows "c' = c\<lparr>channels := AList.delete u (channels c)\<rparr>"
proof -
  from assms have
    "run_close_listeners u v ls (c\<lparr>channels := AList.delete u (channels c)\<rparr>) = (r, c')"
    by simp
  from run_close_listeners_state [OF this] show ?thesis by (auto simp add: delete_idem)
qed

lemma emit_close_hooked:
  assumes "close_listeners ch = (True, Channels_delete) # ls"
    and "emit_close u ch v c = (r, c')"
  shows "c' = c\<lparr>trace := trace c @ [Channel_close u v], channels := AList.delete u (channels c)\<rparr>"
proof -
  from assms have
    "run_close_listeners u v (Channels_delete # map snd ls)
       (retract_once u (log_event (Channel_close u v) c)) = (r, c')"
    by (simp add: emit_close_def)
  from run_close_listeners_hook [OF this] show ?thesis
    by (simp add: retract_once_def log_event_def delete_map_entry)
qed

lemma emit_close_state:
  assumes "emit_close u ch v c = (r, c')"
  shows "\<exists>table. c' = c\<lparr>trace := trace c @ [Channel_close u v], channels := table\<rparr>
           \<and> (\<forall>k. k \<noteq> u \<longrightarrow> map_of table k = map_of (channels c) k)"
proof -
  from assms have
    "run_close_listeners u v (map snd (close_listeners ch))
       (retract_once u (log_event (Channel_close u v) c)) = (r, c')"
    by (simp add: emit_close_def)
  from run_close_listeners_state [OF this] show ?thesis
    by (auto simp add: retract_once_def log_event_def map_of_map_entry)
qed

lemma send_state:
  "send m c = (r, c') \<Longrightarrow> c' = c \<or> c' = c\<lparr>wire := wire c @ [m]\<rparr>"
  by (auto simp add: send_def split: socket.splits if_splits)

lemma scoped_to_refl: "scoped_to u c c"
  by (simp add: scoped_to_def)

lemma scoped_to_trans:
  assumes "scoped_to u c c1" and "scoped_to u c1 c2"
  shows "scoped_to u c c2"
proof -
  from assms obtain evs1 evs2 where
    "trace c1 = trace c @ evs1" "\<forall>ev\<in>set evs1. within u ev"
    "trace c2 = trace c1 @ evs2" "\<forall>ev\<in>set evs2. within u ev"
    unfolding scoped_to_def by blast
  then have "trace c2 = trace c @ (evs1 @ evs2) \<and> (\<forall>ev\<in>set (evs1 @ evs2). within u ev)"
    by auto
  then have "\<exists>evs. trace c2 = trace c @ evs \<and> (\<forall>ev\<in>set evs. within u ev)" by blast
  with assms show ?thesis unfolding scoped_to_def by simp
qed

lemma scoped_to_log:
  "within u ev \<Longrightarrow> scoped_to u c (log_event ev c)"
  by (simp add: scoped_to_def log_event_def)

lemma scoped_to_send: "send m c = (r, c1) \<Longrightarrow> scoped_to u c c1"
  by (drule send_state) (auto simp add: scoped_to_def)

lemma scoped_to_emit_close: "emit_close u ch v c = (r, c1) \<Longrightarrow> scoped_to u c c1"
  by (drule emit_close_state) (auto simp add: scoped_to_def)

lemma scoped_to_throw: "WSChannel_throw u reason c = (r, c1) \<Longrightarrow> scoped_to u c c1"
  by (auto simp add: WSChannel_throw_def scoped_to_refl split: option.splits prod.splits
      intro: scoped_to_trans [OF scoped_to_send scoped_to_emit_close] scoped_to_send)

lemma scoped_to_catch: "WSChannel_catch u e c = (r, c1) \<Longrightarrow> scoped_to u c c1"
  by (simp add: WSChannel_catch_def scoped_to_throw)

lemma scoped_to_register:
  "scoped_to u c (once_close u l (c\<lparr>channels := AList.update u ch (channels c)\<rparr>))"
  by (simp add: scoped_to_def once_close_def map_of_map_entry update_conv')

lemma scoped_to_onwsopen: "onwsopen u path data c = (r, c1) \<Longrightarrow> scoped_to u c c1"
proof -
  assume run: "onwsopen u path data c = (r, c1)"
  show ?thesis
  proof (cases "map_of (channels c) u")
    case (Some ch)
    with run show ?thesis by (simp add: onwsopen_def scoped_to_refl)
  next
    case None
    let ?c2 = "once_close u Channels_delete (c\<lparr>channels := AList.update u new_WSChannel (channels c)\<rparr>)"
    let ?c3 = "log_event (Path_emit path u data) ?c2"
    have reg: "scoped_to u c ?c3"
      by (rule scoped_to_trans [OF scoped_to_register scoped_to_log]) simp
    show ?thesis
    proof (cases "first_throw (map (\<lambda>h. h u) (paths ?c2 path)) data")
      case None
      with run \<open>map_of (channels c) u = None\<close> have "c1 = ?c3"
        by (simp add: onwsopen_def paths_emit_def)
      with reg show ?thesis by simp
    next
      case (Some e)
      with run \<open>map_of (channels c) u = None\<close> have "WSChannel_catch u e ?c3 = (r, c1)"
        by (simp add: onwsopen_def paths_emit_def)
      from scoped_to_trans [OF reg scoped_to_catch [OF this]] show ?thesis .
    qed
  qed
qed

lemma scoped_to_data:
  assumes "onwsmessage (WSDataMessage u data) c = (r, c1)"
  shows "scoped_to u c c1"
proof (cases "map_of (channels c) u")
  case None
  with assms show ?thesis by (simp add: onwsmessage_def scoped_to_refl)
next
  case (Some ch)
  let ?c2 = "log_event (Channel_message u data) c"
  have logged: "scoped_to u c ?c2" by (rule scoped_to_log) simp
  show ?thesis
  proof (cases "first_throw (message_listeners ch) data")
    case None
    with assms Some have "c1 = ?c2" by (simp add: onwsmessage_def emit_message_def)
    with logged show ?thesis by simp
  next
    case (Some e)
    with assms \<open>map_of (channels c) u = Some ch\<close> have "WSChannel_catch u e ?c2 = (r, c1)"
      by (simp add: onwsmessage_def emit_message_def)
    from scoped_to_trans [OF logged scoped_to_catch [OF this]] show ?thesis .
  qed
qed

lemma scoped_to_not_terminal:
  assumes "\<not> is_terminal msg" and "onwsmessage msg c = (r, c1)"
  shows "scoped_to (msg_uuid msg) c c1"
proof (cases msg)
  case (WSOpenMessage u path data)
  with assms(2) have "onwsopen u path data c = (r, c1)" by (simp add: onwsmessage_def)
  with WSOpenMessage show ?thesis by (simp add: scoped_to_onwsopen)
next
  case (WSDataMessage u data)
  with assms(2) show ?thesis by (simp add: scoped_to_data)
qed (use assms(1) in simp_all)

lemma within_events:
  assumes "\<forall>ev\<in>set evs. within u ev"
  shows "(\<forall>e. Conn_close e \<notin> set evs) \<and> (\<forall>k v. Channel_close k v \<in> set evs \<longrightarrow> k = u)"
  using assms by fastforce

text \<open>
  C2, as stated, fails. On a server connection with the channels \<open>a\<close> and \<open>b\<close>, where a
  close listener of \<open>a\<close> throws \<open>Error("boom")\<close>, an inbound close frame for \<open>a\<close> ends
  with the connection closed: \<open>onwsmessage\<close> hands the failure to \<open>this.catch\<close>, which
  calls \<open>this.close("boom")\<close>. The socket is closed, the connection's \<open>close\<close> event is
  emitted, and \<open>b\<close> goes down with the connection.
\<close>

theorem close_listener_failure_closes_connection:
  "\<not> closed boom_conn
   \<and> closed (snd (onwsmessage (WSCloseMessage ''a'' JUndefined) boom_conn))
   \<and> trace (snd (onwsmessage (WSCloseMessage ''a'' JUndefined) boom_conn))
       = [Channel_close ''a'' (Payload JUndefined),
          Console_error (Error ''boom''),
          Channel_close ''b'' (Failure (CloseError ConnectionClose (Some ''boom''))),
          Conn_close (CloseError ConnectionClose (Some ''boom''))]
   \<and> channels (snd (onwsmessage (WSCloseMessage ''a'' JUndefined) boom_conn)) = []"
  by (simp add: boom_conn_def boom_channel_def server_with_def fresh_conn_def hooked_channel_def
      onwsmessage_def emit_close_def retract_once_def log_event_def WSConn_catch_def closed_def
      close_def WSServerConn_close_def socket_close_def emit_conn_close_def)

text \<open>
  C2, amended. For an inbound open or data frame the dispatch never closes the
  connection and never touches another channel, whatever the path handlers and message
  listeners do: the socket is as before, every table entry but the frame's own is as
  before, and nothing emitted is a \<open>close\<close> of the connection or of another channel. A
  failure of a path handler or of a message listener goes to the affected channel's
  \<open>catch\<close>. A failure of a close listener, thrown while a close or an error frame is
  dispatched, goes to the connection's \<open>catch\<close>.
\<close>

theorem handler_failure_scope:
  "(\<not> is_terminal msg \<longrightarrow>
      socket (snd (onwsmessage msg c)) = socket c
      \<and> (\<forall>k. k \<noteq> msg_uuid msg \<longrightarrow>
             map_of (channels (snd (onwsmessage msg c))) k = map_of (channels c) k)
      \<and> (\<exists>evs. trace (snd (onwsmessage msg c)) = trace c @ evs
             \<and> (\<forall>e. Conn_close e \<notin> set evs)
             \<and> (\<forall>k v. Channel_close k v \<in> set evs \<longrightarrow> k = msg_uuid msg)))
   \<and> (map_of (channels c) fresh = None
        \<and> paths_emit path fresh data0
             (once_close fresh Channels_delete
                (c\<lparr>channels := AList.update fresh new_WSChannel (channels c)\<rparr>)) = (Some e0, c0)
      \<longrightarrow> onwsmessage (WSOpenMessage fresh path data0) c = WSChannel_catch fresh e0 c0)
   \<and> (map_of (channels c) uuid = Some ch \<and> emit_message uuid ch data c = (Some e1, c1)
      \<longrightarrow> onwsmessage (WSDataMessage uuid data) c = WSChannel_catch uuid e1 c1)
   \<and> (map_of (channels c) uuid = Some ch \<and> emit_close uuid ch (Payload data) c = (Some e2, c2)
      \<longrightarrow> onwsmessage (WSCloseMessage uuid data) c = WSConn_catch e2 c2)
   \<and> (map_of (channels c) uuid = Some ch
        \<and> emit_close uuid ch (Failure (CloseError ChannelClose (Some reason))) c = (Some e3, c3)
      \<longrightarrow> onwsmessage (WSErrorMessage uuid reason) c = WSConn_catch e3 c3)"
proof -
  have scope: "socket (snd (onwsmessage msg c)) = socket c
      \<and> (\<forall>k. k \<noteq> msg_uuid msg \<longrightarrow>
             map_of (channels (snd (onwsmessage msg c))) k = map_of (channels c) k)
      \<and> (\<exists>evs. trace (snd (onwsmessage msg c)) = trace c @ evs
             \<and> (\<forall>e. Conn_close e \<notin> set evs)
             \<and> (\<forall>k v. Channel_close k v \<in> set evs \<longrightarrow> k = msg_uuid msg))"
    if "\<not> is_terminal msg"
  proof -
    have "scoped_to (msg_uuid msg) c (snd (onwsmessage msg c))"
      using that by (rule scoped_to_not_terminal) (rule prod.collapse [symmetric])
    then show ?thesis unfolding scoped_to_def using within_events by blast
  qed
  have dispatch:
    "map_of (channels c) fresh = None
        \<and> paths_emit path fresh data0
             (once_close fresh Channels_delete
                (c\<lparr>channels := AList.update fresh new_WSChannel (channels c)\<rparr>)) = (Some e0, c0)
      \<longrightarrow> onwsmessage (WSOpenMessage fresh path data0) c = WSChannel_catch fresh e0 c0"
    "map_of (channels c) uuid = Some ch \<and> emit_message uuid ch data c = (Some e1, c1)
      \<longrightarrow> onwsmessage (WSDataMessage uuid data) c = WSChannel_catch uuid e1 c1"
    "map_of (channels c) uuid = Some ch \<and> emit_close uuid ch (Payload data) c = (Some e2, c2)
      \<longrightarrow> onwsmessage (WSCloseMessage uuid data) c = WSConn_catch e2 c2"
    "map_of (channels c) uuid = Some ch
        \<and> emit_close uuid ch (Failure (CloseError ChannelClose (Some reason))) c = (Some e3, c3)
      \<longrightarrow> onwsmessage (WSErrorMessage uuid reason) c = WSConn_catch e3 c3"
    by (simp_all add: onwsmessage_def onwsopen_def)
  from scope dispatch show ?thesis by blast
qed

lemmas boom_defs =
  boom_conn_def boom_channel_def server_with_def fresh_conn_def hooked_channel_def
  onwsmessage_def onwsopen_def emit_close_def emit_message_def paths_emit_def once_close_def
  retract_once_def log_event_def WSConn_catch_def WSChannel_catch_def WSChannel_throw_def
  send_def closed_def close_def WSServerConn_close_def socket_close_def emit_conn_close_def
  new_WSChannel_def

theorem handler_failure_scope_witness:
  "\<not> is_terminal (WSDataMessage ''a'' (JNum 1))
   \<and> socket (snd (onwsmessage (WSDataMessage ''a'' (JNum 1)) boom_conn)) = socket boom_conn
   \<and> map_of (channels (snd (onwsmessage (WSDataMessage ''a'' (JNum 1)) boom_conn))) ''b''
       = Some (hooked_channel [])
   \<and> trace (snd (onwsmessage (WSDataMessage ''a'' (JNum 1)) boom_conn))
       = [Channel_message ''a'' (JNum 1),
          Channel_close ''a'' (Failure (CloseError ChannelClose (Some ''boom'')))]
   \<and> map_of (channels boom_conn) ''z'' = None
   \<and> fst (paths_emit ''echo'' ''z'' (JNum 1)
             (once_close ''z'' Channels_delete
                (boom_conn\<lparr>channels := AList.update ''z'' new_WSChannel (channels boom_conn)\<rparr>)))
       = Some (Error ''boom'')
   \<and> trace (snd (onwsmessage (WSOpenMessage ''z'' ''echo'' (JNum 1)) boom_conn))
       = [Path_emit ''echo'' ''z'' (JNum 1),
          Channel_close ''z'' (Failure (CloseError ChannelClose (Some ''boom'')))]
   \<and> map_of (channels boom_conn) ''a'' = Some boom_channel
   \<and> fst (emit_message ''a'' boom_channel (JNum 1) boom_conn) = Some (Error ''boom'')
   \<and> onwsmessage (WSDataMessage ''a'' (JNum 1)) boom_conn
       = WSChannel_catch ''a'' (Error ''boom'') (snd (emit_message ''a'' boom_channel (JNum 1) boom_conn))
   \<and> fst (emit_close ''a'' boom_channel (Payload (JNum 1)) boom_conn) = Some (Error ''boom'')
   \<and> onwsmessage (WSCloseMessage ''a'' (JNum 1)) boom_conn
       = WSConn_catch (Error ''boom'') (snd (emit_close ''a'' boom_channel (Payload (JNum 1)) boom_conn))
   \<and> fst (emit_close ''a'' boom_channel (Failure (CloseError ChannelClose (Some ''r''))) boom_conn)
       = Some (Error ''boom'')
   \<and> onwsmessage (WSErrorMessage ''a'' ''r'') boom_conn
       = WSConn_catch (Error ''boom'')
           (snd (emit_close ''a'' boom_channel (Failure (CloseError ChannelClose (Some ''r''))) boom_conn))"
  using handler_failure_scope
    [where msg = "WSDataMessage ''a'' (JNum 1)" and c = boom_conn and fresh = "''z''"
       and path = "''echo''" and ?data0.0 = "JNum 1" and ?e0.0 = "Error ''boom''"
       and ?c0.0 = "snd (paths_emit ''echo'' ''z'' (JNum 1)
             (once_close ''z'' Channels_delete
                (boom_conn\<lparr>channels := AList.update ''z'' new_WSChannel (channels boom_conn)\<rparr>)))"
       and uuid = "''a''" and ch = boom_channel and data = "JNum 1"
       and ?e1.0 = "Error ''boom''"
       and ?c1.0 = "snd (emit_message ''a'' boom_channel (JNum 1) boom_conn)"
       and ?e2.0 = "Error ''boom''"
       and ?c2.0 = "snd (emit_close ''a'' boom_channel (Payload (JNum 1)) boom_conn)"
       and reason = "''r''" and ?e3.0 = "Error ''boom''"
       and ?c3.0 = "snd (emit_close ''a'' boom_channel (Failure (CloseError ChannelClose (Some ''r''))) boom_conn)"]
  by (simp add: boom_defs)


section \<open>Closing channels and connections\<close>

lemma hooked_delete: "hooked c \<Longrightarrow> hooked (c\<lparr>channels := AList.delete u (channels c), trace := t\<rparr>)"
  by (simp add: hooked_def delete_conv')

lemma hooked_log: "hooked (log_event ev c) = hooked c"
  by (simp add: hooked_def log_event_def)

lemma force_close_hooked:
  assumes "hooked c"
  shows "\<exists>evs. trace (force_close us e c) = trace c @ evs
           \<and> (\<forall>u. u \<in> set us \<and> map_of (channels c) u \<noteq> None \<longrightarrow>
                  Channel_close u (Failure e) \<in> set evs \<and> length (filter (is_close_of u) evs) = 1)
           \<and> (\<forall>u. u \<notin> set us \<or> map_of (channels c) u = None \<longrightarrow> filter (is_close_of u) evs = [])
           \<and> \<not> list_ex is_conn_close evs
           \<and> (\<forall>k. map_of (channels (force_close us e c)) k
                   = (if k \<in> set us then None else map_of (channels c) k))
           \<and> socket (force_close us e c) = socket c
           \<and> wire (force_close us e c) = wire c
           \<and> close_handlers (force_close us e c) = close_handlers c"
  using assms
proof (induction us arbitrary: c)
  case Nil
  then show ?case by simp
next
  case (Cons u us)
  show ?case
  proof (cases "map_of (channels c) u")
    case None
    from Cons.IH [OF Cons.prems] obtain evs where
      ih: "trace (force_close us e c) = trace c @ evs"
        "\<forall>k. k \<in> set us \<and> map_of (channels c) k \<noteq> None \<longrightarrow>
            Channel_close k (Failure e) \<in> set evs \<and> length (filter (is_close_of k) evs) = 1"
        "\<forall>k. k \<notin> set us \<or> map_of (channels c) k = None \<longrightarrow> filter (is_close_of k) evs = []"
        "\<not> list_ex is_conn_close evs"
        "\<forall>k. map_of (channels (force_close us e c)) k
                   = (if k \<in> set us then None else map_of (channels c) k)"
        "socket (force_close us e c) = socket c"
        "wire (force_close us e c) = wire c"
        "close_handlers (force_close us e c) = close_handlers c"
      by blast
    have step: "force_close (u # us) e c = force_close us e c" using None by simp
    show ?thesis
      unfolding step
      apply (rule exI [of _ evs])
      using ih None by auto
  next
    case (Some ch)
    with Cons.prems obtain ls where hook: "close_listeners ch = (True, Channels_delete) # ls"
      unfolding hooked_def by blast
    obtain r c1 where run: "emit_close u ch (Failure e) c = (r, c1)" by force
    from emit_close_hooked [OF hook run] have c1:
      "c1 = c\<lparr>trace := trace c @ [Channel_close u (Failure e)], channels := AList.delete u (channels c)\<rparr>" .
    define c2 where "c2 = (case r of None \<Rightarrow> c1 | Some x \<Rightarrow> log_event (Console_error x) c1)"
    define logged where "logged = (case r of None \<Rightarrow> [] | Some x \<Rightarrow> [Console_error x])"
    have step: "force_close (u # us) e c = force_close us e c2"
      using Some run by (simp add: c2_def split: option.splits)
    have c2: "trace c2 = trace c @ Channel_close u (Failure e) # logged"
      "channels c2 = AList.delete u (channels c)" "socket c2 = socket c" "wire c2 = wire c"
      "close_handlers c2 = close_handlers c"
      by (simp_all add: c2_def logged_def c1 log_event_def split: option.splits)
    have "hooked c2"
      using Cons.prems by (simp add: hooked_def c2 delete_conv')
    from Cons.IH [OF this] obtain evs where
      ih: "trace (force_close us e c2) = trace c2 @ evs"
        "\<forall>k. k \<in> set us \<and> map_of (channels c2) k \<noteq> None \<longrightarrow>
            Channel_close k (Failure e) \<in> set evs \<and> length (filter (is_close_of k) evs) = 1"
        "\<forall>k. k \<notin> set us \<or> map_of (channels c2) k = None \<longrightarrow> filter (is_close_of k) evs = []"
        "\<not> list_ex is_conn_close evs"
        "\<forall>k. map_of (channels (force_close us e c2)) k
                   = (if k \<in> set us then None else map_of (channels c2) k)"
        "socket (force_close us e c2) = socket c2"
        "wire (force_close us e c2) = wire c2"
        "close_handlers (force_close us e c2) = close_handlers c2"
      by blast
    have logged: "filter (is_close_of k) logged = []" "\<not> list_ex is_conn_close logged" for k
      by (simp_all add: logged_def split: option.splits)
    have own: "filter (is_close_of u) evs = []"
      using ih(3) by (simp add: c2 delete_conv')
    have other: "map_of (channels c2) k = map_of (channels c) k" if "k \<noteq> u" for k
      using that by (simp add: c2 delete_conv')
    show ?thesis
      unfolding step
      apply (rule exI [of _ "Channel_close u (Failure e) # logged @ evs"])
      apply (intro conjI allI impI)
      subgoal using ih(1) c2 by simp
      subgoal for k using ih(2) other [of k] by auto
      subgoal for k
        apply (cases "k = u")
        subgoal using own logged by simp
        subgoal using ih(2) [rule_format, of k] other [of k] logged by auto
        done
      subgoal for k using ih(3) [rule_format, of k] other [of k] logged Some by auto
      subgoal using ih(4) logged by (auto simp add: list_ex_iff)
      subgoal for k using ih(5) [rule_format, of k] by (simp add: c2 delete_conv')
      subgoal using ih c2 by simp
      subgoal using ih c2 by simp
      subgoal using ih c2 by simp
      done
  qed
qed

lemma map_of_empty_table: "(\<forall>k. map_of al k = None) \<Longrightarrow> al = []"
  by (cases al) (auto simp add: fun_upd_def split: if_splits)

lemma emit_conn_close_hooked:
  assumes "hooked c" and "emit_conn_close e c = (r, c1)"
  shows "closes_all e c c1 \<and> trace c1 = trace (force_close (map fst (channels c)) e c) @ [Conn_close e]
         \<and> socket c1 = socket c \<and> wire c1 = wire c"
proof -
  let ?c2 = "force_close (map fst (channels c)) e c"
  from force_close_hooked [OF assms(1), of "map fst (channels c)" e] obtain evs where
    f: "trace ?c2 = trace c @ evs"
      "\<forall>u. u \<in> set (map fst (channels c)) \<and> map_of (channels c) u \<noteq> None \<longrightarrow>
            Channel_close u (Failure e) \<in> set evs \<and> length (filter (is_close_of u) evs) = 1"
      "\<not> list_ex is_conn_close evs"
      "\<forall>k. map_of (channels ?c2) k
                   = (if k \<in> set (map fst (channels c)) then None else map_of (channels c) k)"
      "socket ?c2 = socket c" "wire ?c2 = wire c"
    by blast
  from assms(2) have c1: "c1 = log_event (Conn_close e) ?c2"
    by (simp add: emit_conn_close_def Let_def)
  have "map_of (channels ?c2) k = None" for k
    using f(4) by (simp add: map_of_eq_None_iff)
  then have empty: "channels ?c2 = []" by (simp add: map_of_empty_table)
  have keys: "u \<in> set (map fst (channels c))" if "map_of (channels c) u \<noteq> None" for u
    using that by (metis map_of_eq_None_iff set_map)
  have "trace c1 = trace c @ evs @ Conn_close e # []
        \<and> (\<forall>u. map_of (channels c) u \<noteq> None \<longrightarrow>
               Channel_close u (Failure e) \<in> set evs \<and> length (filter (is_close_of u) evs) = 1)
        \<and> \<not> list_ex is_conn_close (evs @ [])"
    using f keys by (simp add: c1 log_event_def)
  then have "\<exists>evs rest. trace c1 = trace c @ evs @ Conn_close e # rest
        \<and> (\<forall>u. map_of (channels c) u \<noteq> None \<longrightarrow>
               Channel_close u (Failure e) \<in> set evs \<and> length (filter (is_close_of u) evs) = 1)
        \<and> \<not> list_ex is_conn_close (evs @ rest)"
    by blast
  with empty f show ?thesis by (simp add: closes_all_def c1 log_event_def)
qed




lemma closed_log: "closed (log_event ev c) = closed c"
  by (simp add: closed_def log_event_def)


lemma untouched_refl: "untouched u c c"
  by (simp add: untouched_def)

lemma untouched_trans:
  assumes "untouched u c c1" and "untouched u c1 c2"
  shows "untouched u c c2"
proof -
  from assms obtain evs1 evs2 where
    "trace c1 = trace c @ evs1" "filter (is_close_of u) evs1 = []"
    "trace c2 = trace c1 @ evs2" "filter (is_close_of u) evs2 = []"
    unfolding untouched_def by blast
  then have "trace c2 = trace c @ (evs1 @ evs2) \<and> filter (is_close_of u) (evs1 @ evs2) = []"
    by simp
  then have "\<exists>evs. trace c2 = trace c @ evs \<and> filter (is_close_of u) evs = []" by blast
  with assms show ?thesis unfolding untouched_def by simp
qed

lemma untouched_log: "\<not> is_close_of u ev \<Longrightarrow> untouched u c (log_event ev c)"
  by (simp add: untouched_def log_event_def)

lemma within_other: "within k ev \<Longrightarrow> k \<noteq> u \<Longrightarrow> \<not> is_close_of u ev"
  by (cases ev) auto

lemma scoped_to_untouched:
  assumes "scoped_to k c c1" and "k \<noteq> u"
  shows "untouched u c c1"
proof -
  from assms(1) obtain evs where
    t: "trace c1 = trace c @ evs" "\<forall>ev\<in>set evs. within k ev"
    and m: "map_of (channels c1) u = map_of (channels c) u"
    unfolding scoped_to_def using assms(2) by auto
  from t(2) assms(2) have "filter (is_close_of u) evs = []"
    by (auto simp add: filter_empty_conv dest: within_other)
  with t(1) m show ?thesis unfolding untouched_def by blast
qed

lemma force_close_untouched:
  "u \<notin> set us \<Longrightarrow> untouched u c (force_close us e c)"
proof (induction us arbitrary: c)
  case Nil
  then show ?case by (simp add: untouched_refl)
next
  case (Cons k us)
  then have ne: "k \<noteq> u" and rest: "u \<notin> set us" by auto
  show ?case
  proof (cases "map_of (channels c) k")
    case None
    then show ?thesis using Cons.IH [OF rest] by simp
  next
    case (Some ch)
    obtain r c1 where run: "emit_close k ch (Failure e) c = (r, c1)" by force
    have one: "untouched u c c1"
      using scoped_to_emit_close [OF run] ne by (rule scoped_to_untouched)
    show ?thesis
    proof (cases r)
      case None
      with Some run have "force_close (k # us) e c = force_close us e c1" by simp
      with untouched_trans [OF one Cons.IH [OF rest]] show ?thesis by simp
    next
      case (Some x)
      with \<open>map_of (channels c) k = Some ch\<close> run
      have step: "force_close (k # us) e c = force_close us e (log_event (Console_error x) c1)"
        by simp
      have "untouched u c (log_event (Console_error x) c1)"
        by (rule untouched_trans [OF one untouched_log]) simp
      from untouched_trans [OF this Cons.IH [OF rest]] step show ?thesis by simp
    qed
  qed
qed

lemma emit_conn_close_untouched:
  assumes "map_of (channels c) u = None" and "emit_conn_close e c = (r, c1)"
  shows "untouched u c c1"
proof -
  from assms(1) have "u \<notin> set (map fst (channels c))"
    by (metis map_of_eq_None_iff set_map)
  then have "untouched u c (force_close (map fst (channels c)) e c)"
    by (rule force_close_untouched)
  then have "untouched u c (log_event (Conn_close e) (force_close (map fst (channels c)) e c))"
    by (rule untouched_trans [OF _ untouched_log]) simp
  with assms(2) show ?thesis by (simp add: emit_conn_close_def Let_def)
qed

lemma untouched_socket: "untouched u (c\<lparr>socket := s\<rparr>) c1 \<Longrightarrow> untouched u c c1"
  by (simp add: untouched_def)

lemma close_untouched:
  assumes "map_of (channels c) u = None" and "close reason c = (r, c1)"
  shows "untouched u c c1"
proof (cases "socket c")
  case (Server_socket isClosed)
  show ?thesis
  proof (cases "isClosed \<and> reclose_throws c")
    case True
    with assms(2) Server_socket have "c1 = c"
      by (simp add: close_def WSServerConn_close_def socket_close_def)
    then show ?thesis by (simp add: untouched_refl)
  next
    case False
    with assms(2) Server_socket
    have run: "emit_conn_close (CloseError ConnectionClose reason) (c\<lparr>socket := Server_socket True\<rparr>) = (r, c1)"
      by (auto simp add: close_def WSServerConn_close_def socket_close_def)
    have "map_of (channels (c\<lparr>socket := Server_socket True\<rparr>)) u = None" using assms(1) by simp
    from emit_conn_close_untouched [OF this run] show ?thesis by (rule untouched_socket)
  qed
next
  case (Client_socket rs)
  with assms(2) have "c1 = c \<or> c1 = c\<lparr>socket := Client_socket (if rs = CLOSED then CLOSED else CLOSING)\<rparr>"
    by (auto simp add: close_def WSClientConn_close_def socket_close_def split: if_splits)
  then show ?thesis by (auto simp add: untouched_def)
qed

lemma WSConn_catch_untouched:
  assumes "map_of (channels c) u = None" and "WSConn_catch e c = (r, c1)"
  shows "untouched u c c1"
proof -
  let ?c0 = "log_event (Console_error e) c"
  have logged: "untouched u c ?c0" by (rule untouched_log) simp
  have absent: "map_of (channels ?c0) u = None" using assms(1) by (simp add: log_event_def)
  from assms(2) have "c1 = ?c0 \<or> (\<exists>reason. close reason ?c0 = (r, c1))"
    by (cases e) (auto simp add: WSConn_catch_def Let_def split: if_splits)
  then show ?thesis
  proof
    assume "c1 = ?c0"
    with logged show ?thesis by simp
  next
    assume "\<exists>reason. close reason ?c0 = (r, c1)"
    then obtain reason where "close reason ?c0 = (r, c1)" by blast
    from untouched_trans [OF logged close_untouched [OF absent this]] show ?thesis .
  qed
qed

lemma emit_close_then_untouched:
  assumes reg: "map_of (channels c0) u = Some ch"
    and hook: "close_listeners ch = (True, Channels_delete) # ls"
    and pre: "trace c0 = trace c" 
    and run: "emit_close u ch v c0 = (r, c1)"
    and after: "untouched u c1 c2"
  shows "map_of (channels c2) u = None \<and> length (filter (is_close_of u) (new_events c c2)) = 1"
proof -
  from emit_close_hooked [OF hook run] have c1:
    "c1 = c0\<lparr>trace := trace c0 @ [Channel_close u v], channels := AList.delete u (channels c0)\<rparr>" .
  from after obtain evs where
    "trace c2 = trace c1 @ evs" "filter (is_close_of u) evs = []"
    "map_of (channels c2) u = map_of (channels c1) u"
    unfolding untouched_def by blast
  then show ?thesis by (simp add: c1 pre new_events_def delete_conv')
qed

lemma first_closing_frame:
  assumes reg: "map_of (channels c) u = Some ch"
    and hook: "close_listeners ch = (True, Channels_delete) # ls"
    and tm: "is_terminal msg" "msg_uuid msg = u"
  shows "map_of (channels (deliver msg c)) u = None
         \<and> length (filter (is_close_of u) (new_events c (deliver msg c))) = 1"
proof -
  define v where "v = (case msg of WSCloseMessage k data \<Rightarrow> Payload data
                        | WSErrorMessage k reason \<Rightarrow> Failure (CloseError ChannelClose (Some reason))
                        | _ \<Rightarrow> Payload JUndefined)"
  obtain r c1 where run: "emit_close u ch v c = (r, c1)" by force
  from emit_close_hooked [OF hook run] have absent: "map_of (channels c1) u = None"
    by (simp add: delete_conv')
  have dispatch: "onwsmessage msg c = (case r of None \<Rightarrow> (None, c1) | Some e \<Rightarrow> WSConn_catch e c1)"
    using tm reg run by (cases msg) (simp_all add: onwsmessage_def v_def split: option.splits)
  have "untouched u c1 (deliver msg c)"
  proof (cases r)
    case None
    with dispatch show ?thesis by (simp add: deliver_def untouched_refl)
  next
    case (Some e)
    obtain r2 c2 where catch: "WSConn_catch e c1 = (r2, c2)" by force
    note step = WSConn_catch_untouched [OF absent catch]
    show ?thesis
    proof (cases r2)
      case None
      with dispatch Some catch step show ?thesis by (simp add: deliver_def)
    next
      case (Some x)
      have "untouched u c1 (log_event (Console_error x) c2)"
        by (rule untouched_trans [OF step untouched_log]) simp
      with dispatch \<open>r = Some e\<close> catch Some show ?thesis by (simp add: deliver_def)
    qed
  qed
  from emit_close_then_untouched [OF reg hook refl run this] show ?thesis .
qed

lemma first_local_close:
  assumes reg: "map_of (channels c) u = Some ch"
    and hook: "close_listeners ch = (True, Channels_delete) # ls"
    and sent: "fst (send (WSCloseMessage u data) c) = None"
  shows "map_of (channels (snd (WSChannel_close u data c))) u = None
         \<and> length (filter (is_close_of u) (new_events c (snd (WSChannel_close u data c)))) = 1"
proof -
  obtain c0 where s: "send (WSCloseMessage u data) c = (None, c0)"
    using sent by (cases "send (WSCloseMessage u data) c") auto
  from send_state [OF s] have same: "trace c0 = trace c" "channels c0 = channels c" by auto
  obtain r c1 where run: "emit_close u ch (Payload data) c0 = (r, c1)" by force
  have res: "snd (WSChannel_close u data c) = c1"
    using reg s run by (simp add: WSChannel_close_def)
  from reg same have reg0: "map_of (channels c0) u = Some ch" by simp
  from emit_close_then_untouched [OF reg0 hook same(1) run untouched_refl] res
  show ?thesis by simp
qed

lemma later_closing_step:
  assumes "map_of (channels c) u = None" and "closing_action u a"
  shows "untouched u c (closing_step u a c)"
proof (cases a)
  case (Inl msg)
  with assms(2) have tm: "is_terminal msg" "msg_uuid msg = u"
    by (simp_all add: closing_action_def)
  then have "\<not> is_open msg" by (cases msg) simp_all
  with assms(1) tm have "deliver msg c = log_event (Console_error (Error ''Invalid UUID'')) c"
    by (cases msg) (simp_all add: deliver_def onwsmessage_def)
  with Inl show ?thesis by (simp add: closing_step_def untouched_log)
next
  case (Inr data)
  with assms(1) show ?thesis by (simp add: closing_step_def WSChannel_close_def untouched_refl)
qed

lemma later_closing_steps:
  assumes "map_of (channels c) u = None" and "\<forall>b\<in>set later. closing_action u b"
  shows "untouched u c (fold (closing_step u) later c)"
  using assms
proof (induction later arbitrary: c)
  case Nil
  then show ?case by (simp add: untouched_refl)
next
  case (Cons b later)
  then have step: "untouched u c (closing_step u b c)"
    by (simp add: later_closing_step)
  with Cons.prems(1) have "map_of (channels (closing_step u b c)) u = None"
    by (simp add: untouched_def)
  from Cons.IH [OF this] Cons.prems(2) have "untouched u (closing_step u b c) (fold (closing_step u) later (closing_step u b c))"
    by simp
  from untouched_trans [OF step this] show ?case by simp
qed

lemma once_stays_once:
  assumes "map_of (channels c1) u = None"
    and "length (filter (is_close_of u) (new_events c c1)) = 1"
    and "untouched u c1 c2"
  shows "map_of (channels c2) u = None \<and> length (filter (is_close_of u) (new_events c c2)) = 1"
proof -
  from assms(3) obtain evs where
    t: "trace c2 = trace c1 @ evs" "filter (is_close_of u) evs = []"
    and m: "map_of (channels c2) u = map_of (channels c1) u"
    unfolding untouched_def by blast
  have "length (trace c) \<le> length (trace c1)"
  proof (rule ccontr)
    assume "\<not> length (trace c) \<le> length (trace c1)"
    then have "new_events c c1 = []" by (simp add: new_events_def)
    with assms(2) show False by simp
  qed
  then have "new_events c c2 = new_events c c1 @ evs"
    by (simp add: new_events_def t(1))
  with assms(1,2) t(2) m show ?thesis by simp
qed

text \<open>
  C8. Let the channel \<open>u\<close> be registered with the removal hook as its first close
  listener. Whatever ends it first (a close or error frame addressed to it, or a call of
  its \<open>close\<close> whose frame the transport takes) emits its \<open>close\<close> event once and removes
  \<open>u\<close> from the table; after any further close frames, error frames and \<open>close\<close> calls
  for \<open>u\<close> the event has still been emitted exactly once and \<open>u\<close> is still absent.
\<close>

theorem channel_closes_once:
  assumes "map_of (channels c) u = Some ch"
    and "close_listeners ch = (True, Channels_delete) # ls"
    and "closing_action u a"
    and "case a of Inl msg \<Rightarrow> True | Inr data \<Rightarrow> fst (send (WSCloseMessage u data) c) = None"
    and "\<forall>b\<in>set later. closing_action u b"
  shows "map_of (channels (closing_step u a c)) u = None
         \<and> length (filter (is_close_of u) (new_events c (closing_step u a c))) = 1
         \<and> map_of (channels (fold (closing_step u) later (closing_step u a c))) u = None
         \<and> length (filter (is_close_of u)
               (new_events c (fold (closing_step u) later (closing_step u a c)))) = 1"
proof -
  have first: "map_of (channels (closing_step u a c)) u = None
         \<and> length (filter (is_close_of u) (new_events c (closing_step u a c))) = 1"
  proof (cases a)
    case (Inl msg)
    with assms(3) have "is_terminal msg" "msg_uuid msg = u" by (simp_all add: closing_action_def)
    from first_closing_frame [OF assms(1,2) this] Inl show ?thesis by (simp add: closing_step_def)
  next
    case (Inr data)
    with assms(4) have "fst (send (WSCloseMessage u data) c) = None" by simp
    from first_local_close [OF assms(1,2) this] Inr show ?thesis by (simp add: closing_step_def)
  qed
  then have absent: "map_of (channels (closing_step u a c)) u = None" by simp
  from first have once: "length (filter (is_close_of u) (new_events c (closing_step u a c))) = 1"
    by simp
  from once_stays_once [OF absent once later_closing_steps [OF absent assms(5)]] first
  show ?thesis by simp
qed


lemmas closing_defs =
  closing_step_def closing_action_def deliver_def WSChannel_close_def new_events_def
  boom_conn_def boom_channel_def server_with_def fresh_conn_def hooked_channel_def
  onwsmessage_def onwsopen_def emit_close_def emit_message_def paths_emit_def once_close_def
  retract_once_def log_event_def WSConn_catch_def WSChannel_catch_def WSChannel_throw_def
  send_def closed_def close_def WSServerConn_close_def socket_close_def emit_conn_close_def
  new_WSChannel_def handle_logged_def handle_def onclose_def

theorem channel_closes_once_witness:
  "map_of (channels boom_conn) ''a'' = Some boom_channel
   \<and> close_listeners boom_channel
       = (True, Channels_delete) # [(False, Close_listener (\<lambda>v. Some (Error ''boom'')))]
   \<and> closing_action ''a'' (Inl (WSCloseMessage ''a'' (JNum 1)))
   \<and> closing_action ''a'' (Inl (WSErrorMessage ''a'' ''late''))
   \<and> closing_action ''a'' (Inr (JNum 2))
   \<and> fst (send (WSCloseMessage ''a'' (JNum 2)) boom_conn) = None
   \<and> new_events boom_conn
         (fold (closing_step ''a'') [Inl (WSErrorMessage ''a'' ''late''), Inr (JNum 2)]
            (closing_step ''a'' (Inl (WSCloseMessage ''a'' (JNum 1))) boom_conn))
       = [Channel_close ''a'' (Payload (JNum 1)),
          Console_error (Error ''boom''),
          Channel_close ''b'' (Failure (CloseError ConnectionClose (Some ''boom''))),
          Conn_close (CloseError ConnectionClose (Some ''boom'')),
          Console_error (Error ''Invalid UUID'')]
   \<and> length (filter (is_close_of ''a'')
         (new_events boom_conn
            (fold (closing_step ''a'') [Inl (WSErrorMessage ''a'' ''late''), Inr (JNum 2)]
               (closing_step ''a'' (Inl (WSCloseMessage ''a'' (JNum 1))) boom_conn)))) = 1
   \<and> new_events boom_conn
         (fold (closing_step ''a'') [Inl (WSErrorMessage ''a'' ''late''), Inr (JNum 2)]
            (closing_step ''a'' (Inr (JNum 2)) boom_conn))
       = [Channel_close ''a'' (Payload (JNum 2)), Console_error (Error ''Invalid UUID'')]
   \<and> map_of (channels
         (fold (closing_step ''a'') [Inl (WSErrorMessage ''a'' ''late''), Inr (JNum 2)]
            (closing_step ''a'' (Inr (JNum 2)) boom_conn))) ''a'' = None"
  using channel_closes_once
    [where c = boom_conn and u = "''a''" and ch = boom_channel
       and ls = "[(False, Close_listener (\<lambda>v. Some (Error ''boom'')))]"
       and a = "Inl (WSCloseMessage ''a'' (JNum 1))"
       and later = "[Inl (WSErrorMessage ''a'' ''late''), Inr (JNum 2)]"]
    channel_closes_once
    [where c = boom_conn and u = "''a''" and ch = boom_channel
       and ls = "[(False, Close_listener (\<lambda>v. Some (Error ''boom'')))]"
       and a = "Inr (JNum 2)"
       and later = "[Inl (WSErrorMessage ''a'' ''late''), Inr (JNum 2)]"]
  by (simp add: closing_defs)



section \<open>Requests\<close>





















lemmas request_defs =
  request_def WSConn_open_def open_send_def open_register_def genUUID.simps
  deliver_def new_events_def fresh_conn_def
  onwsmessage_def onwsopen_def emit_close_def emit_message_def paths_emit_def once_close_def
  retract_once_def log_event_def WSConn_catch_def WSChannel_catch_def WSChannel_throw_def
  send_def closed_def new_WSChannel_def


lemma request_example_trace:
  "map_option (\<lambda>r. trace (snd r))
         (request ''echo'' (JNum 1) (Some 100)
            [(10, WSDataMessage ''a'' (JNum 7)), (20, WSCloseMessage ''zz'' JUndefined),
             (30, WSCloseMessage ''a'' (JNum 1))]
            (fresh_conn (Server_socket False)))
   = Some [Channel_message ''a'' (JNum 7), Console_error (Error ''Invalid UUID''),
           Channel_close ''a'' (Payload (JNum 1))]"
  by (simp add: request_defs)


section \<open>The removal hook on every registered channel\<close>

text \<open>
  A fresh connection satisfies \<open>hooked\<close>, and opening channels, dispatching inbound
  frames and closing the connection keep it: the hypothesis of the two closing theorems
  holds in every state these operations reach.
\<close>

lemma hooked_fresh: "hooked (fresh_conn s)"
  by (simp add: hooked_def fresh_conn_def)

lemma hooked_fields:
  "hooked (c\<lparr>trace := t\<rparr>) = hooked c" "hooked (c\<lparr>wire := w\<rparr>) = hooked c"
  "hooked (c\<lparr>uuids := s\<rparr>) = hooked c" "hooked (c\<lparr>socket := k\<rparr>) = hooked c"
  by (simp_all add: hooked_def)

lemma hooked_send: "hooked c \<Longrightarrow> send m c = (r, c1) \<Longrightarrow> hooked c1"
  by (drule send_state) (auto simp add: hooked_fields)

lemma hooked_register:
  "hooked c \<Longrightarrow>
   hooked (once_close u Channels_delete (c\<lparr>channels := AList.update u new_WSChannel (channels c)\<rparr>))"
  by (auto simp add: hooked_def once_close_def map_of_map_entry update_conv' new_WSChannel_def
      split: if_splits)

lemma hooked_emit_close:
  assumes "hooked c" and "map_of (channels c) u = Some ch" and "emit_close u ch v c = (r, c1)"
  shows "hooked c1"
proof -
  from assms(1,2) obtain ls where "close_listeners ch = (True, Channels_delete) # ls"
    unfolding hooked_def by blast
  from emit_close_hooked [OF this assms(3)] assms(1) show ?thesis
    by (simp add: hooked_def delete_conv')
qed

lemma hooked_throw:
  assumes "hooked c" and "WSChannel_throw u reason c = (r, c1)"
  shows "hooked c1"
proof (cases "map_of (channels c) u")
  case None
  with assms show ?thesis by (simp add: WSChannel_throw_def)
next
  case (Some ch)
  obtain r0 c0 where s: "send (WSErrorMessage u reason) c = (r0, c0)" by force
  from send_state [OF s] Some have reg: "map_of (channels c0) u = Some ch" by auto
  from hooked_send [OF assms(1) s] have h0: "hooked c0" .
  show ?thesis
  proof (cases r0)
    case None
    with assms(2) Some s
    have "emit_close u ch (Failure (CloseError ChannelClose (Some reason))) c0 = (r, c1)"
      by (simp add: WSChannel_throw_def)
    from hooked_emit_close [OF h0 reg this] show ?thesis .
  next
    case (Some e)
    with assms(2) \<open>map_of (channels c) u = Some ch\<close> s h0 show ?thesis
      by (simp add: WSChannel_throw_def)
  qed
qed

lemma hooked_emit_conn_close:
  assumes "hooked c" and "emit_conn_close e c = (r, c1)"
  shows "hooked c1"
proof -
  from emit_conn_close_hooked [OF assms] have "channels c1 = []"
    by (simp add: closes_all_def)
  then show ?thesis by (simp add: hooked_def)
qed

lemma hooked_close:
  assumes "hooked c" and "close reason c = (r, c1)"
  shows "hooked c1"
proof (cases "socket c")
  case (Server_socket isClosed)
  show ?thesis
  proof (cases "isClosed \<and> reclose_throws c")
    case True
    with assms Server_socket show ?thesis
      by (simp add: close_def WSServerConn_close_def socket_close_def)
  next
    case False
    with assms(2) Server_socket
    have "emit_conn_close (CloseError ConnectionClose reason) (c\<lparr>socket := Server_socket True\<rparr>) = (r, c1)"
      by (auto simp add: close_def WSServerConn_close_def socket_close_def)
    moreover have "hooked (c\<lparr>socket := Server_socket True\<rparr>)"
      using assms(1) by (simp add: hooked_fields)
    ultimately show ?thesis by (rule hooked_emit_conn_close [rotated])
  qed
next
  case (Client_socket rs)
  with assms show ?thesis
    by (auto simp add: close_def WSClientConn_close_def socket_close_def hooked_fields
        split: if_splits)
qed

lemma hooked_catch:
  assumes "hooked c" and "WSConn_catch e c = (r, c1)"
  shows "hooked c1"
proof -
  let ?c0 = "log_event (Console_error e) c"
  have h0: "hooked ?c0" using assms(1) by (simp add: hooked_log)
  from assms(2) have "c1 = ?c0 \<or> (\<exists>reason. close reason ?c0 = (r, c1))"
    by (cases e) (auto simp add: WSConn_catch_def Let_def split: if_splits)
  with h0 show ?thesis by (auto intro: hooked_close)
qed

lemma hooked_onwsmessage:
  assumes "hooked c" and "onwsmessage msg c = (r, c1)"
  shows "hooked c1"
proof (cases msg)
  case (WSOpenMessage u path data)
  let ?c2 = "once_close u Channels_delete (c\<lparr>channels := AList.update u new_WSChannel (channels c)\<rparr>)"
  have "hooked (log_event (Path_emit path u data) ?c2)"
    using assms(1) by (simp add: hooked_log hooked_register)
  with assms WSOpenMessage show ?thesis
    by (auto simp add: onwsmessage_def onwsopen_def paths_emit_def WSChannel_catch_def Let_def
        split: if_splits option.splits dest: hooked_throw)
next
  case (WSDataMessage u data)
  have "hooked (log_event (Channel_message u data) c)"
    using assms(1) by (simp add: hooked_log)
  with assms WSDataMessage show ?thesis
    by (auto simp add: onwsmessage_def emit_message_def WSChannel_catch_def
        split: if_splits option.splits dest: hooked_throw)
next
  case (WSCloseMessage u data)
  show ?thesis
  proof (cases "map_of (channels c) u")
    case None
    with assms WSCloseMessage show ?thesis by (simp add: onwsmessage_def)
  next
    case (Some ch)
    obtain r2 c2 where run: "emit_close u ch (Payload data) c = (r2, c2)" by force
    note h2 = hooked_emit_close [OF assms(1) Some run]
    with assms(2) WSCloseMessage Some run show ?thesis
      by (cases r2) (auto simp add: onwsmessage_def intro: hooked_catch)
  qed
next
  case (WSErrorMessage u reason)
  show ?thesis
  proof (cases "map_of (channels c) u")
    case None
    with assms WSErrorMessage show ?thesis by (simp add: onwsmessage_def)
  next
    case (Some ch)
    obtain r2 c2 where
      run: "emit_close u ch (Failure (CloseError ChannelClose (Some reason))) c = (r2, c2)" by force
    note h2 = hooked_emit_close [OF assms(1) Some run]
    with assms(2) WSErrorMessage Some run show ?thesis
      by (cases r2) (auto simp add: onwsmessage_def intro: hooked_catch)
  qed
qed

lemma hooked_deliver: "hooked c \<Longrightarrow> hooked (deliver msg c)"
  by (cases "onwsmessage msg c")
     (auto simp add: deliver_def hooked_log split: option.splits dest: hooked_onwsmessage)

lemma hooked_open:
  assumes "hooked c" and "WSConn_open path data c = Some (r, c1)"
  shows "hooked c1"
proof (cases r)
  case (Inl e)
  with assms(2) have "channels c1 = channels c" by (simp add: WSConn_open_Inl)
  with assms(1) show ?thesis by (simp add: hooked_def)
next
  case (Inr u)
  with WSConn_open_Inr assms(2) obtain rest c0 where
    s: "send (WSOpenMessage u path data) (c\<lparr>uuids := rest\<rparr>) = (None, c0)" and
    r: "c1 = open_register u c0"
    by blast
  from assms(1) have "hooked (c\<lparr>uuids := rest\<rparr>)" by (simp add: hooked_fields)
  from hooked_send [OF this s] show ?thesis
    unfolding r open_register_def by (rule hooked_register)
qed


end
